theory Spec2Isabelle
  imports Complex_Main "HOL-Library.Sublist"
begin

section \<open>Python values used by the redaction pipeline\<close>

text \<open>
  The program is Python. Its exceptions are values of the type \<open>error\<close>; a function that
  may raise returns \<open>error + 'a\<close>, with \<open>Inl\<close> for the exception.
\<close>

datatype error =
  ValueError string
  | TypeError string
  | UnidentifiedImageError string
  | OtherError string

subsection \<open>Built-in \<open>range\<close>, \<open>min\<close> and \<open>max\<close>\<close>

text \<open>
  \<open>range(start, stop, step)\<close> with a positive step holds \<open>(stop - start + step - 1) // step\<close>
  numbers (none when \<open>stop \<le> start\<close>), the \<open>k\<close>-th being \<open>start + k * step\<close>.
\<close>

definition py_range :: "nat \<Rightarrow> nat \<Rightarrow> nat \<Rightarrow> nat list" where
  "py_range start stop step =
     map (\<lambda>k. start + k * step) [0 ..< (stop - start + step - 1) div step]"

text \<open>
  \<open>min(xs)\<close> raises \<open>ValueError\<close> on an empty list; otherwise it walks the list and keeps
  the current item unless a later one is strictly smaller. \<open>max\<close> is symmetric.
\<close>

fun py_min :: "real list \<Rightarrow> error + real" where
  "py_min [] = Inl (ValueError ''min() arg is an empty sequence'')"
| "py_min (v # vs) = Inr (foldl (\<lambda>cur item. if item < cur then item else cur) v vs)"

fun py_max :: "real list \<Rightarrow> error + real" where
  "py_max [] = Inl (ValueError ''max() arg is an empty sequence'')"
| "py_max (v # vs) = Inr (foldl (\<lambda>cur item. if item > cur then item else cur) v vs)"

subsection \<open>Floats\<close>

text \<open>
  Coordinates are Python floats, that is IEEE-754 doubles. A finite double is modelled by
  the real number it denotes, and doubles are compared as these reals are. The sum and the
  difference of two doubles are the exact sum and difference rounded to the nearest double,
  ties going to the even significand: \<open>1e16 - (-1.0)\<close> is \<open>1e16\<close>, not \<open>10000000000000001\<close>.
  A double has 53 significant bits and its unit in the last place is never below
  \<open>2 ^ -1074\<close>. NaN, the infinities and results beyond the range of the doubles are
  outside the model: it follows the program on every input whose coordinates are finite
  doubles and whose sums and differences stay within the range of the doubles.
\<close>

text \<open>The number of bits of a positive integer, \<open>int.bit_length\<close>.\<close>

function bit_length :: "int \<Rightarrow> nat" where
  "bit_length n = (if n \<le> 0 then 0 else Suc (bit_length (n div 2)))"
  by pat_completeness auto
termination
  by (relation "measure nat") auto

declare bit_length.simps [simp del]

definition pow2 :: "int \<Rightarrow> real" where
  "pow2 k = (if 0 \<le> k then 2 ^ nat k else 1 / 2 ^ nat (- k))"

definition round_half_even :: "real \<Rightarrow> int" where
  "round_half_even q =
     (let f = \<lfloor>q\<rfloor>; d = q - of_int f
      in if d < 1 / 2 then f else if 1 / 2 < d then f + 1 else if even f then f else f + 1)"

text \<open>The exponent \<open>e\<close> of a positive real \<open>a\<close>: \<open>2 ^ e \<le> a < 2 ^ (e + 1)\<close>.\<close>

definition float_exponent :: "real \<Rightarrow> int" where
  "float_exponent a =
     (if 1 \<le> a then int (bit_length \<lfloor>a\<rfloor>) - 1
      else - int (bit_length (\<lceil>1 / a\<rceil> - 1)))"

definition double_round :: "real \<Rightarrow> real" where
  "double_round r =
     (if r = 0 then 0
      else let a = \<bar>r\<bar>;
               u = max (float_exponent a - 52) (- 1074)
           in sgn r * of_int (round_half_even (a / pow2 u)) * pow2 u)"

definition double_sub :: "real \<Rightarrow> real \<Rightarrow> real" where
  "double_sub a b = double_round (a - b)"

definition double_add :: "real \<Rightarrow> real \<Rightarrow> real" where
  "double_add a b = double_round (a + b)"

subsection \<open>Strings\<close>

text \<open>
  A Python \<open>str\<close> is a sequence of code points. It is modelled as a \<open>string\<close>, one \<open>char\<close>
  for each code point, which covers the code points U+0000 to U+00FF. On these,
  \<open>str.isspace\<close> holds for 9 to 13, 28 to 32, 133 and 160, and \<open>str.lower\<close> moves the
  letters 65 to 90 and 192 to 222 (215, the multiplication sign, apart) up by 32.
\<close>

definition py_isspace :: "char \<Rightarrow> bool" where
  "py_isspace c =
     (let n = (of_char c :: nat)
      in (9 \<le> n \<and> n \<le> 13) \<or> (28 \<le> n \<and> n \<le> 32) \<or> n = 133 \<or> n = 160)"

definition py_lower_char :: "char \<Rightarrow> char" where
  "py_lower_char c =
     (let n = (of_char c :: nat)
      in if (65 \<le> n \<and> n \<le> 90) \<or> (192 \<le> n \<and> n \<le> 222 \<and> n \<noteq> 215)
         then char_of (n + 32) else c)"

definition py_lower :: "string \<Rightarrow> string" where
  "py_lower s = map py_lower_char s"

text \<open>\<open>s.strip()\<close> drops the white space at both ends.\<close>

definition py_strip :: "string \<Rightarrow> string" where
  "py_strip s = rev (dropWhile py_isspace (rev (dropWhile py_isspace s)))"

text \<open>
  \<open>s.split()\<close> without a separator cuts at every run of white space and returns no empty
  token. \<open>split_from\<close> scans the string once, the current token kept in reverse.
\<close>

fun split_from :: "string \<Rightarrow> string \<Rightarrow> string list" where
  "split_from token [] = (if token = [] then [] else [rev token])"
| "split_from token (c # cs) =
     (if py_isspace c
      then (if token = [] then split_from [] cs else rev token # split_from [] cs)
      else split_from (c # token) cs)"

definition py_split :: "string \<Rightarrow> string list" where
  "py_split s = split_from [] s"

text \<open>\<open>sub in s\<close> on strings: \<open>sub\<close> starts at some position of \<open>s\<close>.\<close>

fun py_in :: "string \<Rightarrow> string \<Rightarrow> bool" where
  "py_in sub [] = (sub = [])"
| "py_in sub (c # cs) = (prefix sub (c # cs) \<or> py_in sub cs)"

subsection \<open>Sets\<close>

text \<open>
  A Python \<open>set\<close> is modelled by the list of its elements, without repetition.
  \<open>s.add(e)\<close> first calls \<open>hash(e)\<close>: an object whose class has \<open>__hash__ = None\<close> makes it
  raise \<open>TypeError: unhashable type\<close>, before the set is looked at. Otherwise \<open>e\<close> joins the
  set unless an equal element is there. \<open>hash_of\<close> is the \<open>__hash__\<close> of the element's class,
  \<open>None\<close> when the class has none.
\<close>

definition py_set_add :: "('a \<Rightarrow> int option) \<Rightarrow> 'a list \<Rightarrow> 'a \<Rightarrow> error + 'a list" where
  "py_set_add hash_of s e =
     (case hash_of e of
        None \<Rightarrow> Inl (TypeError ''unhashable type'')
      | Some h \<Rightarrow> Inr (if e \<in> set s then s else s @ [e]))"

section \<open>Data model: \<open>models/__init__.py\<close>\<close>

record BoundingBox =
  x :: real
  y :: real
  width :: real
  height :: real

text \<open>
  \<open>BoundingBox.from_polygon\<close>: the length check on the scalar list, the two list
  comprehensions over \<open>range(0, len(polygon), 2)\<close> and \<open>range(1, len(polygon), 2)\<close>, then
  \<open>min\<close> and \<open>max\<close> in the order of the source, and the two float subtractions.
\<close>

definition from_polygon :: "real list \<Rightarrow> error + BoundingBox" where
  "from_polygon polygon =
     (if length polygon < 8
      then Inl (ValueError ''Polygon must have at least 4 points (8 coordinates)'')
      else
        let x_coords = map (\<lambda>i. polygon ! i) (py_range 0 (length polygon) 2);
            y_coords = map (\<lambda>i. polygon ! i) (py_range 1 (length polygon) 2)
        in case py_min x_coords of Inl e \<Rightarrow> Inl e | Inr xmin \<Rightarrow>
           (case py_min y_coords of Inl e \<Rightarrow> Inl e | Inr ymin \<Rightarrow>
           (case py_max x_coords of Inl e \<Rightarrow> Inl e | Inr xmax \<Rightarrow>
           (case py_max y_coords of Inl e \<Rightarrow> Inl e | Inr ymax \<Rightarrow>
              Inr \<lparr>x = xmin, y = ymin,
                   width = double_sub xmax xmin, height = double_sub ymax ymin\<rparr>))))"

record DocumentWord =
  content :: string
  bounding_box :: BoundingBox
  confidence :: real

text \<open>
  \<open>DocumentWord\<close> is declared with a bare \<open>@dataclass\<close>, that is with \<open>eq=True\<close> and
  \<open>frozen=False\<close>. For these settings the decorator generates \<open>__eq__\<close> (equality of the
  fields) and sets \<open>__hash__\<close> to \<open>None\<close>: the class has no hash.
\<close>

definition DocumentWord_hash :: "DocumentWord \<Rightarrow> int option" where
  "DocumentWord_hash word = None"

record 'b ImageRedactionResult =
  content :: 'b
  content_type :: string

section \<open>OCR adapter: \<open>services/text_extraction_service.py\<close>\<close>

text \<open>
  Line 53 builds the scalar list from the points of a word's polygon:
  \<open>[coord for point in word.polygon for coord in (point.x, point.y)]\<close>.
\<close>

definition flatten_points :: "(real \<times> real) list \<Rightarrow> real list" where
  "flatten_points points = concat (map (\<lambda>(px, py). [px, py]) points)"

section \<open>Matcher: \<open>services/pii_detection_service.py\<close>\<close>

text \<open>
  \<open>extract_pii\<close> turns what the injected provider returns into a set. The provider is a
  parameter; the resulting set is the list of its distinct elements.
\<close>

definition extract_pii :: "(string \<Rightarrow> error + string list) \<Rightarrow> string \<Rightarrow> error + string list" where
  "extract_pii detect_pii text_content =
     (case detect_pii text_content of
        Inl e \<Rightarrow> Inl e
      | Inr pii_values \<Rightarrow> Inr (remdups pii_values))"

text \<open>The comprehension of lines 63 to 67.\<close>

definition pii_components :: "string \<Rightarrow> string list" where
  "pii_components pii_value =
     [py_strip component. component \<leftarrow> py_split (py_strip pii_value), py_strip component \<noteq> []]"

text \<open>The test of lines 72 and 73.\<close>

definition pii_match :: "string \<Rightarrow> DocumentWord \<Rightarrow> bool" where
  "pii_match component word =
     (py_in (py_lower component) (py_lower (DocumentWord.content word)) \<or>
      py_in (py_lower (DocumentWord.content word)) (py_lower component))"

text \<open>
  The three nested loops of \<open>get_words_containing_pii\<close>, innermost first; \<open>acc\<close> is the set
  \<open>words_containing_pii\<close>. An exception of \<open>add\<close> leaves all three loops. \<open>pii_values\<close> is
  given as the list of the set's elements in the order the loop meets them, and the
  returned list holds the elements of \<open>words_containing_pii\<close> in the order they joined it
  (Python fixes neither order). The loops take the \<open>__hash__\<close> of the class of the words as
  their argument \<open>hash_of\<close>, which \<open>add\<close> calls.
\<close>

fun component_loop ::
  "(DocumentWord \<Rightarrow> int option) \<Rightarrow> DocumentWord \<Rightarrow> string list \<Rightarrow> DocumentWord list
     \<Rightarrow> error + DocumentWord list" where
  "component_loop hash_of word [] acc = Inr acc"
| "component_loop hash_of word (component # rest) acc =
     (if pii_match component word
      then (case py_set_add hash_of acc word of
              Inl e \<Rightarrow> Inl e
            | Inr acc' \<Rightarrow> component_loop hash_of word rest acc')
      else component_loop hash_of word rest acc)"

fun word_loop ::
  "(DocumentWord \<Rightarrow> int option) \<Rightarrow> string list \<Rightarrow> DocumentWord list \<Rightarrow> DocumentWord list
     \<Rightarrow> error + DocumentWord list" where
  "word_loop hash_of components [] acc = Inr acc"
| "word_loop hash_of components (word # rest) acc =
     (case component_loop hash_of word components acc of
        Inl e \<Rightarrow> Inl e
      | Inr acc' \<Rightarrow> word_loop hash_of components rest acc')"

fun pii_value_loop ::
  "(DocumentWord \<Rightarrow> int option) \<Rightarrow> DocumentWord list \<Rightarrow> string list \<Rightarrow> DocumentWord list
     \<Rightarrow> error + DocumentWord list" where
  "pii_value_loop hash_of extracted_words [] acc = Inr acc"
| "pii_value_loop hash_of extracted_words (pii_value # rest) acc =
     (case word_loop hash_of (pii_components pii_value) extracted_words acc of
        Inl e \<Rightarrow> Inl e
      | Inr acc' \<Rightarrow> pii_value_loop hash_of extracted_words rest acc')"

text \<open>The body of the method, for words of a class with the hash \<open>hash_of\<close>.\<close>

definition get_words_containing_pii_with ::
  "(DocumentWord \<Rightarrow> int option) \<Rightarrow> DocumentWord list \<Rightarrow> string list
     \<Rightarrow> error + DocumentWord list" where
  "get_words_containing_pii_with hash_of extracted_words pii_values =
     pii_value_loop hash_of extracted_words pii_values []"

text \<open>The method of the program: the words are \<open>DocumentWord\<close> objects, with the hash of that class.\<close>

definition get_words_containing_pii ::
  "DocumentWord list \<Rightarrow> string list \<Rightarrow> error + DocumentWord list" where
  "get_words_containing_pii extracted_words pii_values =
     get_words_containing_pii_with DocumentWord_hash extracted_words pii_values"

section \<open>The Pillow interface\<close>

text \<open>
  \<open>redact_image\<close> calls the imaging library Pillow, which is not part of the program. An
  image is its mode, its size (columns, rows) and its pixels in row-major order, each
  pixel the list of its band values. The three library calls whose result depends on a
  codec or on a colour conversion are parameters of the model, gathered in a record:
  \<open>Image.open(io.BytesIO(b))\<close>, \<open>image.convert(mode)\<close> and \<open>image.save(buffer, format)\<close>
  followed by \<open>buffer.getvalue()\<close>. The type \<open>'b\<close> is the type of byte strings.
\<close>

record Image =
  mode :: string
  im_size :: "nat \<times> nat"
  pixels :: "nat list list"

record 'b pillow =
  Image_open :: "'b \<Rightarrow> error + Image"
  convert :: "Image \<Rightarrow> string \<Rightarrow> error + Image"
  save :: "Image \<Rightarrow> string \<Rightarrow> error + 'b"

text \<open>
  \<open>draw.rectangle([x0, y0, x1, y1], fill='black')\<close> is modelled on the pixels. Pillow
  refuses a box whose second corner lies before the first, casts the four floats to C
  integers and paints every pixel of the image whose column lies in \<open>x0..x1\<close> and whose
  row lies in \<open>y0..y1\<close>, both ends included. The cast \<open>c_int\<close> truncates towards zero; for
  a float beyond the range of a 32-bit \<open>int\<close>, where C leaves the result open, it is the
  least \<open>int\<close>, as the conversion instruction of x86-64 gives it. Pixel number \<open>i\<close> of
  an image with \<open>w\<close> columns is in column \<open>i mod w\<close> of row \<open>i div w\<close>. The ink of
  \<open>'black'\<close> is \<open>(0, 0, 0)\<close> in mode RGB, the mode in which \<open>redact_image\<close> draws.
\<close>

definition c_int :: "real \<Rightarrow> int" where
  "c_int r =
     (let t = (if 0 \<le> r then \<lfloor>r\<rfloor> else \<lceil>r\<rceil>)
      in if - 2147483648 \<le> t \<and> t \<le> 2147483647 then t else - 2147483648)"

definition covers :: "real list \<Rightarrow> nat \<Rightarrow> nat \<Rightarrow> bool" where
  "covers rect w i =
     (case rect of
        [x0, y0, x1, y1] \<Rightarrow>
          c_int x0 \<le> int (i mod w) \<and> int (i mod w) \<le> c_int x1 \<and>
          c_int y0 \<le> int (i div w) \<and> int (i div w) \<le> c_int y1
      | _ \<Rightarrow> False)"

definition draw_rectangle :: "Image \<Rightarrow> real list \<Rightarrow> error + Image" where
  "draw_rectangle im rect =
     (case rect of
        [x0, y0, x1, y1] \<Rightarrow>
          if x1 < x0 then Inl (ValueError ''x1 must be greater than or equal to x0'')
          else if y1 < y0 then Inl (ValueError ''y1 must be greater than or equal to y0'')
          else Inr (im\<lparr>pixels :=
                 map (\<lambda>i. if covers rect (fst (im_size im)) i then [0, 0, 0] else pixels im ! i)
                   [0 ..< length (pixels im)]\<rparr>)
      | _ \<Rightarrow> Inl (ValueError ''wrong number of coordinates''))"

text \<open>
  A reference instance of the interface, for evaluating the model on concrete images. A
  file is represented by the image it decodes to, so opening and saving are lossless, and
  the conversion to RGB is the one of Pillow on the 8-bit modes \<open>L\<close> (the grey value
  becomes the three bands) and \<open>RGBA\<close> (the alpha band is dropped).
\<close>

definition reference_convert :: "Image \<Rightarrow> string \<Rightarrow> error + Image" where
  "reference_convert im target =
     (if target \<noteq> ''RGB'' then Inl (ValueError ''conversion outside the reference instance'')
      else if mode im = ''RGB'' then Inr im
      else if mode im = ''RGBA''
        then Inr (im\<lparr>mode := ''RGB'', pixels := map (take 3) (pixels im)\<rparr>)
      else if mode im = ''L''
        then Inr (im\<lparr>mode := ''RGB'', pixels := map (\<lambda>px. px @ px @ px) (pixels im)\<rparr>)
      else Inl (ValueError ''conversion outside the reference instance''))"

definition reference_pillow :: "Image pillow" where
  "reference_pillow =
     \<lparr>Image_open = (\<lambda>b. Inr b), convert = reference_convert, save = (\<lambda>im fmt. Inr im)\<rparr>"

section \<open>Renderer: \<open>services/image_redaction_service.py\<close>\<close>

text \<open>
  The list \<open>rectangle\<close> of lines 47 to 52, with its two float additions, and the loop of
  lines 45 to 54.
\<close>

definition rectangle :: "BoundingBox \<Rightarrow> real list" where
  "rectangle bbox =
     [x bbox, y bbox, double_add (x bbox) (width bbox), double_add (y bbox) (height bbox)]"

fun draw_loop :: "Image \<Rightarrow> BoundingBox list \<Rightarrow> error + Image" where
  "draw_loop im [] = Inr im"
| "draw_loop im (bbox # rest) =
     (case draw_rectangle im (rectangle bbox) of
        Inl e \<Rightarrow> Inl e
      | Inr im' \<Rightarrow> draw_loop im' rest)"

definition redact_image ::
  "'b pillow \<Rightarrow> 'b \<Rightarrow> BoundingBox list \<Rightarrow> error + 'b ImageRedactionResult" where
  "redact_image pil source_image_bytes redaction_areas =
     (case Image_open pil source_image_bytes of Inl e \<Rightarrow> Inl e | Inr opened \<Rightarrow>
     (case (if mode opened \<noteq> ''RGB'' then convert pil opened ''RGB'' else Inr opened) of
        Inl e \<Rightarrow> Inl e | Inr rgb \<Rightarrow>
     (case draw_loop rgb redaction_areas of Inl e \<Rightarrow> Inl e | Inr drawn \<Rightarrow>
     (case save pil drawn ''PNG'' of Inl e \<Rightarrow> Inl e | Inr redacted_bytes \<Rightarrow>
        Inr \<lparr>content = redacted_bytes, content_type = ''image/png''\<rparr>))))"

section \<open>Orchestrator: \<open>services/pii_redaction_service.py\<close>\<close>

text \<open>
  Step 3 of \<open>redact_pii\<close> (lines 66 to 78) computes the redaction areas; \<open>if pii_values\<close>
  tests that the set is not empty. As for the matcher, \<open>redaction_areas_with\<close> is the step
  for words of a class with the hash \<open>hash_of\<close>, and \<open>redaction_areas_of\<close> is the step of the
  program.
\<close>

definition redaction_areas_with ::
  "(DocumentWord \<Rightarrow> int option) \<Rightarrow> DocumentWord list \<Rightarrow> string list
     \<Rightarrow> error + BoundingBox list" where
  "redaction_areas_with hash_of extracted_words pii_values =
     (if pii_values \<noteq> []
      then (case get_words_containing_pii_with hash_of extracted_words pii_values of
              Inl e \<Rightarrow> Inl e
            | Inr words_containing_pii \<Rightarrow> Inr (map bounding_box words_containing_pii))
      else Inr [])"

definition redaction_areas_of ::
  "DocumentWord list \<Rightarrow> string list \<Rightarrow> error + BoundingBox list" where
  "redaction_areas_of extracted_words pii_values =
     redaction_areas_with DocumentWord_hash extracted_words pii_values"

text \<open>
  The whole workflow. The OCR service and the PII provider are injected collaborators:
  \<open>extract_text_from_image\<close> and \<open>detect_pii\<close> are parameters.
\<close>

definition redact_pii ::
  "'b pillow \<Rightarrow> ('b \<Rightarrow> error + string \<times> DocumentWord list) \<Rightarrow>
   (string \<Rightarrow> error + string list) \<Rightarrow> 'b \<Rightarrow> error + 'b \<times> string" where
  "redact_pii pil extract_text_from_image detect_pii source_image_bytes =
     (case extract_text_from_image source_image_bytes of
        Inl e \<Rightarrow> Inl e
      | Inr (full_text, extracted_words) \<Rightarrow>
     (case extract_pii detect_pii full_text of
        Inl e \<Rightarrow> Inl e
      | Inr pii_values \<Rightarrow>
     (case redaction_areas_of extracted_words pii_values of
        Inl e \<Rightarrow> Inl e
      | Inr redaction_areas \<Rightarrow>
     (case redact_image pil source_image_bytes redaction_areas of
        Inl e \<Rightarrow> Inl e
      | Inr result \<Rightarrow> Inr (content result, content_type result)))))"

section \<open>Auxiliary notions for the proofs\<close>

text \<open>The boxes that \<open>draw.rectangle\<close> accepts: the second corner is not before the first.\<close>

definition drawable :: "BoundingBox \<Rightarrow> bool" where
  "drawable b =
     (\<not> double_add (x b) (width b) < x b \<and> \<not> double_add (y b) (height b) < y b)"

text \<open>The image \<open>im\<close> with every pixel covered by one of the boxes painted black.\<close>

definition painted :: "Image \<Rightarrow> BoundingBox list \<Rightarrow> Image" where
  "painted im boxes = im\<lparr>pixels :=
      map (\<lambda>i. if \<exists>b\<in>set boxes. covers (rectangle b) (fst (im_size im)) i
                then [0, 0, 0] else pixels im ! i)
        [0 ..< length (pixels im)]\<rparr>"

section \<open>The float model at work\<close>

text \<open>
  Rounding is symmetric in the sign. The sum and the difference are rounded: \<open>1e16 + 1\<close>
  is not a double and \<open>1e16 - (-1.0)\<close> is \<open>1e16\<close>; \<open>1.0 + (-2 ^ -60)\<close> is \<open>1.0\<close>; a
  difference that is a double is exact. The cast to a C \<open>int\<close> truncates towards zero and
  gives the least \<open>int\<close> beyond the range.
\<close>

text \<open>
  The exponent is the right one: a positive \<open>a\<close> lies between \<open>2 ^ e\<close> and \<open>2 ^ (e + 1)\<close> for
  \<open>e = float_exponent a\<close>.
\<close>

lemma bit_length_bounds:
  "0 < n \<Longrightarrow> 2 ^ (bit_length n - 1) \<le> n \<and> n < 2 ^ bit_length n"
proof (induction n rule: bit_length.induct)
  case (1 n)
  show ?case
  proof (cases "n div 2 \<le> 0")
    case True
    with 1(2) have "n = 1" by auto
    then show ?thesis by (simp add: bit_length.simps[of 1] bit_length.simps[of 0])
  next
    case False
    then have pos: "0 < n div 2" by simp
    with 1 have ih: "2 ^ (bit_length (n div 2) - 1) \<le> n div 2" "n div 2 < 2 ^ bit_length (n div 2)"
      by auto
    from pos have bl: "0 < bit_length (n div 2)"
      by (subst bit_length.simps) simp
    have eq: "bit_length n = Suc (bit_length (n div 2))"
      using 1(2) by (subst bit_length.simps) simp
    from bl have "(2::int) ^ (bit_length n - 1) = 2 * 2 ^ (bit_length (n div 2) - 1)"
      unfolding eq by (cases "bit_length (n div 2)") simp_all
    with ih(1) have lo: "2 ^ (bit_length n - 1) \<le> n" by linarith
    from ih(2) have "n div 2 + 1 \<le> 2 ^ bit_length (n div 2)" by simp
    then have "n < 2 * 2 ^ bit_length (n div 2)" by linarith
    then have hi: "n < 2 ^ bit_length n" unfolding eq by simp
    from lo hi show ?thesis by simp
  qed
qed

lemma bit_length_pos: "0 < n \<Longrightarrow> 0 < bit_length n"
  by (subst bit_length.simps) simp

lemma float_exponent_bounds:
  assumes "0 < a"
  shows "pow2 (float_exponent a) \<le> a \<and> a < pow2 (float_exponent a + 1)"
proof (cases "1 \<le> a")
  case True
  define n where "n = \<lfloor>a\<rfloor>"
  define k where "k = bit_length n"
  from True have n: "0 < n" by (simp add: n_def)
  from bit_length_bounds[OF n] have b: "2 ^ (k - 1) \<le> n" "n < 2 ^ k"
    by (auto simp: k_def)
  from bit_length_pos[OF n] have k: "0 < k" by (simp add: k_def)
  have e: "float_exponent a = int k - 1"
    using True by (simp add: float_exponent_def n_def k_def)
  from b(1) have "(of_int (2 ^ (k - 1)) :: real) \<le> of_int n"
    by (simp only: of_int_le_iff)
  moreover have "(of_int n :: real) \<le> a" by (simp add: n_def)
  ultimately have "(of_int (2 ^ (k - 1)) :: real) \<le> a" by (rule order_trans)
  then have lo: "(2::real) ^ (k - 1) \<le> a" by simp
  from b(2) have "n + 1 \<le> 2 ^ k" by simp
  then have "(of_int (n + 1) :: real) \<le> of_int (2 ^ k)"
    by (simp only: of_int_le_iff)
  moreover have "a < of_int (n + 1)" by (simp add: n_def)
  ultimately have "a < (of_int (2 ^ k) :: real)" by (rule less_le_trans[rotated])
  then have hi: "a < (2::real) ^ k" by simp
  from k have "nat (int k - 1) = k - 1" and "nat (int k) = k" and "0 \<le> int k - 1"
    by simp_all
  with lo hi show ?thesis
    by (simp add: e pow2_def)
next
  case False
  define m where "m = \<lceil>1 / a\<rceil> - 1"
  define k where "k = bit_length m"
  from False assms have b1: "1 < 1 / a" by simp
  then have m: "0 < m" by (simp add: m_def)
  from bit_length_bounds[OF m] have b: "2 ^ (k - 1) \<le> m" "m < 2 ^ k"
    by (auto simp: k_def)
  from bit_length_pos[OF m] have k: "0 < k" by (simp add: k_def)
  have e: "float_exponent a = - int k"
    using False by (simp add: float_exponent_def m_def k_def)
  have "1 / a \<le> of_int (m + 1)" by (simp add: m_def)
  moreover from b(2) have "m + 1 \<le> 2 ^ k" by simp
  then have "(of_int (m + 1) :: real) \<le> of_int (2 ^ k)"
    by (simp only: of_int_le_iff)
  ultimately have "1 / a \<le> (of_int (2 ^ k) :: real)" by (rule order_trans)
  then have up: "1 / a \<le> (2::real) ^ k" by simp
  have "of_int m < 1 / a" unfolding m_def by linarith
  moreover from b(1) have "(of_int (2 ^ (k - 1)) :: real) \<le> of_int m"
    by (simp only: of_int_le_iff)
  ultimately have "(of_int (2 ^ (k - 1)) :: real) < 1 / a" by (rule le_less_trans[rotated])
  then have dn: "(2::real) ^ (k - 1) < 1 / a" by simp
  from up assms have lo: "1 / 2 ^ k \<le> a"
    by (simp add: field_simps)
  from dn assms have hi: "a < 1 / 2 ^ (k - 1)"
    by (simp add: field_simps)
  show ?thesis
  proof (cases "k = 1")
    case True
    with lo hi show ?thesis by (simp add: e pow2_def)
  next
    case False
    with k have "1 < k" by simp
    then have "nat (int k - 1) = k - 1" and "\<not> 0 \<le> 1 - int k" and "\<not> 0 \<le> - int k"
      by simp_all
    with lo hi show ?thesis by (simp add: e pow2_def)
  qed
qed

lemma double_round_minus: "double_round (- r) = - double_round r"
  by (simp add: double_round_def Let_def)

lemma float_examples:
  "double_sub 10000000000000000 (- 1) = 10000000000000000 \<and>
   double_add 1 (- (1 / 2 ^ 60)) = 1 \<and>
   double_sub 7 (1 / 2) = 13 / 2 \<and>
   c_int 100000000000000000000 = - 2147483648 \<and>
   c_int (- (5 / 2)) = - 2"
  by code_simp

section \<open>Properties of the geometry model\<close>

lemma py_range_even: "py_range 0 n 2 = map (\<lambda>k. 2 * k) [0 ..< (n + 1) div 2]"
  by (simp add: py_range_def mult.commute)

lemma py_range_odd: "py_range 1 n 2 = map (\<lambda>k. 2 * k + 1) [0 ..< n div 2]"
proof -
  have "(n - 1 + 2 - 1) div 2 = n div 2" by (cases n) auto
  then show ?thesis by (simp add: py_range_def mult.commute add.commute)
qed

lemma foldl_min_Min:
  "foldl (\<lambda>cur item. if item < cur then item else cur) (v::real) vs = Min (insert v (set vs))"
proof (induction vs arbitrary: v)
  case Nil
  then show ?case by simp
next
  case (Cons a vs)
  have "Min (insert (if a < v then a else v) (set vs)) = Min (insert v (insert a (set vs)))"
    by (cases "set vs = {}") (auto simp: min_def)
  with Cons show ?case by simp
qed

lemma foldl_max_Max:
  "foldl (\<lambda>cur item. if item > cur then item else cur) (v::real) vs = Max (insert v (set vs))"
proof (induction vs arbitrary: v)
  case Nil
  then show ?case by simp
next
  case (Cons a vs)
  have "Max (insert (if a > v then a else v) (set vs)) = Max (insert v (insert a (set vs)))"
    by (cases "set vs = {}") (auto simp: max_def)
  with Cons show ?case by simp
qed

lemma py_min_Min: "vs \<noteq> [] \<Longrightarrow> py_min vs = Inr (Min (set vs))"
  by (cases vs) (simp_all add: foldl_min_Min)

lemma py_max_Max: "vs \<noteq> [] \<Longrightarrow> py_max vs = Inr (Max (set vs))"
  by (cases vs) (simp_all add: foldl_max_Max)

lemma flatten_length: "length (flatten_points pts) = 2 * length pts"
  by (induction pts) (auto simp: flatten_points_def)

lemma flatten_nth_even: "k < length pts \<Longrightarrow> flatten_points pts ! (2 * k) = fst (pts ! k)"
proof (induction pts arbitrary: k)
  case Nil
  then show ?case by simp
next
  case (Cons p pts)
  then show ?case by (cases k) (auto simp: flatten_points_def split: prod.splits)
qed

lemma flatten_nth_odd: "k < length pts \<Longrightarrow> flatten_points pts ! Suc (2 * k) = snd (pts ! k)"
proof (induction pts arbitrary: k)
  case Nil
  then show ?case by simp
next
  case (Cons p pts)
  then show ?case by (cases k) (auto simp: flatten_points_def split: prod.splits)
qed

text \<open>The two comprehensions of \<open>from_polygon\<close> on a list of complete pairs.\<close>

lemma x_coords_flatten:
  "map (\<lambda>i. flatten_points pts ! i) (py_range 0 (length (flatten_points pts)) 2) = map fst pts"
  unfolding py_range_even
  by (auto simp: flatten_length flatten_nth_even intro!: nth_equalityI)

lemma y_coords_flatten:
  "map (\<lambda>i. flatten_points pts ! i) (py_range 1 (length (flatten_points pts)) 2) = map snd pts"
  unfolding py_range_odd
  by (auto simp: flatten_length flatten_nth_odd intro!: nth_equalityI)

text \<open>The same on complete pairs followed by one dangling scalar \<open>t\<close>.\<close>

lemma x_coords_dangling:
  "map (\<lambda>i. (flatten_points pts @ [t]) ! i) (py_range 0 (length (flatten_points pts @ [t])) 2)
     = map fst pts @ [t]"
  unfolding py_range_even
  by (auto simp: flatten_length flatten_nth_even nth_append less_Suc_eq intro!: nth_equalityI)

lemma y_coords_dangling:
  "map (\<lambda>i. (flatten_points pts @ [t]) ! i) (py_range 1 (length (flatten_points pts @ [t])) 2)
     = map snd pts"
  unfolding py_range_odd
  by (auto simp: flatten_length flatten_nth_odd nth_append intro!: nth_equalityI)

lemma from_polygon_total: "8 \<le> length p \<Longrightarrow> \<exists>b. from_polygon p = Inr b"
proof -
  assume a: "8 \<le> length p"
  have "map (\<lambda>i. p ! i) (py_range 0 (length p) 2) \<noteq> []"
    using a by (simp add: py_range_even)
  moreover have "map (\<lambda>i. p ! i) (py_range 1 (length p) 2) \<noteq> []"
    using a unfolding py_range_odd by simp
  ultimately show ?thesis
    using a by (simp add: from_polygon_def Let_def py_min_Min py_max_Max del: map_is_Nil_conv)
qed

text \<open>The coordinates that the two comprehensions pick from any scalar list.\<close>

lemma x_coords_set:
  "set (map (\<lambda>i. p ! i) (py_range 0 (length p) 2)) = {p ! i |i. i < length p \<and> even i}"
proof (intro set_eqI iffI)
  fix v
  assume "v \<in> set (map (\<lambda>i. p ! i) (py_range 0 (length p) 2))"
  then obtain k where "v = p ! (2 * k)" and "k < (length p + 1) div 2"
    unfolding py_range_even by auto
  then have "v = p ! (2 * k) \<and> 2 * k < length p \<and> even (2 * k)"
    by auto
  then show "v \<in> {p ! i |i. i < length p \<and> even i}"
    by blast
next
  fix v
  assume "v \<in> {p ! i |i. i < length p \<and> even i}"
  then obtain k where "v = p ! (2 * k)" and "2 * k < length p"
    by (auto elim: evenE)
  then have "k \<in> set [0 ..< (length p + 1) div 2]" and "v = p ! (2 * k)"
    by auto
  then show "v \<in> set (map (\<lambda>i. p ! i) (py_range 0 (length p) 2))"
    unfolding py_range_even set_map image_image by (rule_tac image_eqI) auto
qed

lemma y_coords_set:
  "set (map (\<lambda>i. p ! i) (py_range 1 (length p) 2)) = {p ! i |i. i < length p \<and> odd i}"
proof (intro set_eqI iffI)
  fix v
  assume "v \<in> set (map (\<lambda>i. p ! i) (py_range 1 (length p) 2))"
  then obtain k where "v = p ! (2 * k + 1)" and "k < length p div 2"
    unfolding py_range_odd by auto
  then have "v = p ! (2 * k + 1) \<and> 2 * k + 1 < length p \<and> odd (2 * k + 1)"
    by auto
  then show "v \<in> {p ! i |i. i < length p \<and> odd i}"
    by blast
next
  fix v
  assume "v \<in> {p ! i |i. i < length p \<and> odd i}"
  then obtain k where "v = p ! (2 * k + 1)" and "2 * k + 1 < length p"
    by (auto elim: oddE)
  then have "k \<in> set [0 ..< length p div 2]" and "v = p ! (2 * k + 1)"
    by auto
  then show "v \<in> set (map (\<lambda>i. p ! i) (py_range 1 (length p) 2))"
    unfolding py_range_odd set_map image_image by (rule_tac image_eqI) auto
qed

text \<open>
  C4. For every polygon of at least 4 points, given as the alternating scalar list of its
  \<open>(x, y)\<close> pairs, \<open>from_polygon\<close> returns the box whose \<open>x\<close> is the least x-coordinate,
  whose \<open>y\<close> is the least y-coordinate, whose width is the greatest x-coordinate minus the
  least one and whose height is the greatest y-coordinate minus the least one, the two
  differences being those of Python's floats. The same holds of every scalar list of
  length 8 or more, the x-coordinates being the scalars at the even positions and the
  y-coordinates those at the odd positions.
\<close>

theorem from_polygon_min_max:
  "(4 \<le> length pts \<longrightarrow>
      from_polygon (flatten_points pts) =
        Inr \<lparr>x = Min (fst ` set pts), y = Min (snd ` set pts),
             width = double_sub (Max (fst ` set pts)) (Min (fst ` set pts)),
             height = double_sub (Max (snd ` set pts)) (Min (snd ` set pts))\<rparr>) \<and>
   (8 \<le> length p \<longrightarrow>
      from_polygon p =
        Inr \<lparr>x = Min {p ! i |i. i < length p \<and> even i},
             y = Min {p ! i |i. i < length p \<and> odd i},
             width = double_sub (Max {p ! i |i. i < length p \<and> even i})
                       (Min {p ! i |i. i < length p \<and> even i}),
             height = double_sub (Max {p ! i |i. i < length p \<and> odd i})
                       (Min {p ! i |i. i < length p \<and> odd i})\<rparr>)"
proof (intro conjI impI)
  assume a: "4 \<le> length pts"
  then have ne: "map fst pts \<noteq> []" "map snd pts \<noteq> []"
    by auto
  from a have len: "\<not> length (flatten_points pts) < 8"
    by (simp add: flatten_length)
  show "from_polygon (flatten_points pts) =
        Inr \<lparr>x = Min (fst ` set pts), y = Min (snd ` set pts),
             width = double_sub (Max (fst ` set pts)) (Min (fst ` set pts)),
             height = double_sub (Max (snd ` set pts)) (Min (snd ` set pts))\<rparr>"
    unfolding from_polygon_def Let_def x_coords_flatten y_coords_flatten
    using len
    by (simp add: py_min_Min[OF ne(1)] py_min_Min[OF ne(2)]
        py_max_Max[OF ne(1)] py_max_Max[OF ne(2)])
next
  assume a: "8 \<le> length p"
  have nx: "map (\<lambda>i. p ! i) (py_range 0 (length p) 2) \<noteq> []"
    using a by (simp add: py_range_even)
  have ny: "map (\<lambda>i. p ! i) (py_range 1 (length p) 2) \<noteq> []"
    using a unfolding py_range_odd by simp
  show "from_polygon p =
        Inr \<lparr>x = Min {p ! i |i. i < length p \<and> even i},
             y = Min {p ! i |i. i < length p \<and> odd i},
             width = double_sub (Max {p ! i |i. i < length p \<and> even i})
                       (Min {p ! i |i. i < length p \<and> even i}),
             height = double_sub (Max {p ! i |i. i < length p \<and> odd i})
                       (Min {p ! i |i. i < length p \<and> odd i})\<rparr>"
    unfolding from_polygon_def Let_def py_min_Min[OF nx] py_min_Min[OF ny]
      py_max_Max[OF nx] py_max_Max[OF ny] x_coords_set y_coords_set
    using a by simp
qed

theorem from_polygon_min_max_witness:
  "4 \<le> length [(- 1, 0), (10000000000000000, 0), (10000000000000000, 1), (- 1, 1::real)] \<and>
   from_polygon
     (flatten_points [(- 1, 0), (10000000000000000, 0), (10000000000000000, 1), (- 1, 1)]) =
     Inr \<lparr>x = - 1, y = 0, width = 10000000000000000, height = 1\<rparr> \<and>
   8 \<le> length [3, 1, 4, 1, 5, 9, 2, 6, 5, 3::real] \<and>
   from_polygon [3, 1, 4, 1, 5, 9, 2, 6, 5, 3] =
     Inr \<lparr>x = 2, y = 1, width = 3, height = 8\<rparr>"
proof -
  have e1: "from_polygon
     (flatten_points [(- 1, 0), (10000000000000000, 0), (10000000000000000, 1), (- 1, 1)]) =
     Inr \<lparr>x = - 1, y = 0, width = 10000000000000000, height = 1\<rparr>"
    by code_simp
  have e2: "from_polygon [3, 1, 4, 1, 5, 9, 2, 6, 5, 3] =
     Inr \<lparr>x = 2, y = 1, width = 3, height = 8\<rparr>"
    by code_simp
  from from_polygon_min_max
    [of "[(- 1, 0), (10000000000000000, 0), (10000000000000000, 1), (- 1, 1)]"
        "[3, 1, 4, 1, 5, 9, 2, 6, 5, 3]"]
  show ?thesis
    using e1 e2 by simp
qed

text \<open>
  C5. \<open>from_polygon\<close> raises its \<open>ValueError\<close> (the spec's \<open>InvalidGeometry\<close>) exactly when
  the scalar list holds fewer than 4 complete pairs, and returns a box exactly when it
  holds 4 or more.
\<close>

theorem from_polygon_fails_iff:
  "(from_polygon p = Inl (ValueError ''Polygon must have at least 4 points (8 coordinates)''))
     = (length p div 2 < 4) \<and>
   (\<exists>b. from_polygon p = Inr b) = (4 \<le> length p div 2)"
proof (cases "length p < 8")
  case True
  then show ?thesis by (auto simp: from_polygon_def)
next
  case False
  then have "8 \<le> length p" by simp
  from from_polygon_total[OF this] False show ?thesis by auto
qed

text \<open>
  C10. The check counts scalars: every list of at least 8 scalars is accepted, whatever
  its parity. When 4 or more complete pairs are followed by one dangling scalar \<open>t\<close>, the
  comprehension over the even indices picks \<open>t\<close> up, so \<open>t\<close> takes part in the minimum
  and the maximum of the x-coordinates, and the y-coordinates are those of the pairs.
\<close>

theorem from_polygon_counts_scalars:
  "(8 \<le> length p \<longrightarrow> (\<exists>b. from_polygon p = Inr b)) \<and>
   (4 \<le> length pts \<longrightarrow>
      from_polygon (flatten_points pts @ [t]) =
        Inr \<lparr>x = Min (insert t (fst ` set pts)), y = Min (snd ` set pts),
             width = double_sub (Max (insert t (fst ` set pts))) (Min (insert t (fst ` set pts))),
             height = double_sub (Max (snd ` set pts)) (Min (snd ` set pts))\<rparr>)"
proof (intro conjI impI)
  assume "8 \<le> length p"
  then show "\<exists>b. from_polygon p = Inr b" by (rule from_polygon_total)
next
  assume a: "4 \<le> length pts"
  then have ne: "map snd pts \<noteq> []" by auto
  have nx: "map fst pts @ [t] \<noteq> []" by simp
  from a have len: "\<not> length (flatten_points pts @ [t]) < 8"
    by (simp add: flatten_length)
  show "from_polygon (flatten_points pts @ [t]) =
        Inr \<lparr>x = Min (insert t (fst ` set pts)), y = Min (snd ` set pts),
             width = double_sub (Max (insert t (fst ` set pts))) (Min (insert t (fst ` set pts))),
             height = double_sub (Max (snd ` set pts)) (Min (snd ` set pts))\<rparr>"
    unfolding from_polygon_def Let_def x_coords_dangling y_coords_dangling
    using len
    by (simp add: py_min_Min[OF nx] py_min_Min[OF ne] py_max_Max[OF nx] py_max_Max[OF ne])
qed

theorem from_polygon_counts_scalars_witness:
  "8 \<le> length [- 1, 0, 10000000000000000, 0, 10000000000000000, 1, - 1, 1, 5::real] \<and>
   (\<exists>b. from_polygon [- 1, 0, 10000000000000000, 0, 10000000000000000, 1, - 1, 1, 5] = Inr b) \<and>
   4 \<le> length [(1, 2), (7, 5/2), (7, 6), (1/2, 6::real)] \<and>
   from_polygon (flatten_points [(1, 2), (7, 5/2), (7, 6), (1/2, 6)] @ [- 3]) =
     Inr \<lparr>x = - 3, y = 2, width = 10, height = 4\<rparr> \<and>
   from_polygon [- 1, 0, 10000000000000000, 0, 10000000000000000, 1, - 1, 1, 5] =
     Inr \<lparr>x = - 1, y = 0, width = 10000000000000000, height = 1\<rparr>"
proof -
  have e1: "from_polygon (flatten_points [(1, 2), (7, 5/2), (7, 6), (1/2, 6)] @ [- 3]) =
     Inr \<lparr>x = - 3, y = 2, width = 10, height = 4\<rparr>"
    by code_simp
  have e2: "from_polygon [- 1, 0, 10000000000000000, 0, 10000000000000000, 1, - 1, 1, 5] =
     Inr \<lparr>x = - 1, y = 0, width = 10000000000000000, height = 1\<rparr>"
    by code_simp
  from from_polygon_counts_scalars
    [of "[- 1, 0, 10000000000000000, 0, 10000000000000000, 1, - 1, 1, 5]"
        "[(1, 2), (7, 5/2), (7, 6), (1/2, 6)]" "- 3"]
  show ?thesis
    using e1 e2 by simp
qed

section \<open>Properties of the matcher\<close>

lemma py_in_sublist: "py_in sub s = sublist sub s"
  by (induction s) (auto simp: sublist_Cons_right)

text \<open>
  The tokens of \<open>split\<close> are not empty and hold no white space. So the \<open>strip\<close> and the
  filter of the comprehension change nothing: the components of a PII value are the
  tokens of the stripped value, and a value of white space only has no component.
\<close>

lemma split_from_tokens:
  "t \<in> set (split_from tok s) \<Longrightarrow> \<forall>c\<in>set tok. \<not> py_isspace c \<Longrightarrow>
     t \<noteq> [] \<and> (\<forall>c\<in>set t. \<not> py_isspace c)"
proof (induction s arbitrary: tok)
  case Nil
  then show ?case by (cases "tok = []") auto
next
  case (Cons c cs)
  show ?case
  proof (cases "py_isspace c")
    case False
    with Cons.prems have "t \<in> set (split_from (c # tok) cs)"
      and "\<forall>a\<in>set (c # tok). \<not> py_isspace a"
      by simp_all
    then show ?thesis by (rule Cons.IH)
  next
    case True
    have e: "\<forall>a\<in>set ([] :: string). \<not> py_isspace a" by simp
    show ?thesis
    proof (cases "tok = []")
      case True
      with \<open>py_isspace c\<close> Cons.prems have "t \<in> set (split_from [] cs)" by simp
      then show ?thesis using e by (rule Cons.IH)
    next
      case False
      with \<open>py_isspace c\<close> Cons.prems have "t = rev tok \<or> t \<in> set (split_from [] cs)"
        by simp
      then show ?thesis
      proof
        assume "t = rev tok"
        with False Cons.prems(2) show ?thesis by simp
      next
        assume "t \<in> set (split_from [] cs)"
        then show ?thesis using e by (rule Cons.IH)
      qed
    qed
  qed
qed

lemma py_split_tokens:
  "t \<in> set (py_split s) \<Longrightarrow> t \<noteq> [] \<and> (\<forall>c\<in>set t. \<not> py_isspace c)"
  using split_from_tokens[of t "[]" s] by (simp add: py_split_def)

lemma py_strip_no_space: "\<forall>c\<in>set t. \<not> py_isspace c \<Longrightarrow> py_strip t = t"
proof -
  assume a: "\<forall>c\<in>set t. \<not> py_isspace c"
  then have "dropWhile py_isspace t = t"
    by (cases t) auto
  moreover from a have "dropWhile py_isspace (rev t) = rev t"
    by (cases "rev t") (auto simp: rev_eq_Cons_iff)
  ultimately show ?thesis by (simp add: py_strip_def)
qed

lemma comprehension_id:
  "\<forall>t\<in>set ts. f t = t \<and> t \<noteq> [] \<Longrightarrow> [f t. t \<leftarrow> ts, f t \<noteq> []] = ts"
proof (induction ts)
  case Nil
  then show ?case by simp
next
  case (Cons a ts)
  then have "f a = a" and "a \<noteq> []" and "[f t. t \<leftarrow> ts, f t \<noteq> []] = ts"
    by simp_all
  then show ?case by simp
qed

lemma pii_components_split: "pii_components v = py_split (py_strip v)"
proof -
  have "\<forall>t\<in>set (py_split (py_strip v)). py_strip t = t \<and> t \<noteq> []"
  proof
    fix t assume "t \<in> set (py_split (py_strip v))"
    from py_split_tokens[OF this] py_strip_no_space[of t]
    show "py_strip t = t \<and> t \<noteq> []" by simp
  qed
  then show ?thesis
    unfolding pii_components_def by (rule comprehension_id)
qed

lemma split_from_blank: "\<forall>c\<in>set s. py_isspace c \<Longrightarrow> split_from [] s = []"
  by (induction s) simp_all

lemma pii_components_blank: "\<forall>c\<in>set v. py_isspace c \<Longrightarrow> pii_components v = []"
proof -
  assume a: "\<forall>c\<in>set v. py_isspace c"
  then have "\<forall>c\<in>set (py_strip v). py_isspace c"
    by (auto simp: py_strip_def dest!: set_dropWhileD)
  then show ?thesis
    by (simp add: pii_components_split py_split_def split_from_blank)
qed

lemma py_set_add_elems: "py_set_add h s e = Inr s' \<Longrightarrow> set s' = insert e (set s)"
  by (auto simp: py_set_add_def split: option.splits if_splits)

text \<open>
  Whatever the hash of the words is, the loops only ever put words of the input into the
  accumulator.
\<close>

lemma component_loop_subset:
  "component_loop h w cs acc = Inr r \<Longrightarrow> set acc \<subseteq> set r \<and> set r \<subseteq> insert w (set acc)"
proof (induction cs arbitrary: acc)
  case Nil
  then show ?case by auto
next
  case (Cons c cs)
  then show ?case
    by (fastforce split: if_splits sum.splits dest: py_set_add_elems)
qed

lemma word_loop_subset:
  "word_loop h cs ws acc = Inr r \<Longrightarrow> set acc \<subseteq> set r \<and> set r \<subseteq> set ws \<union> set acc"
proof (induction ws arbitrary: acc)
  case Nil
  then show ?case by auto
next
  case (Cons w ws)
  then show ?case
    by (fastforce split: sum.splits dest: component_loop_subset)
qed

lemma pii_value_loop_subset:
  "pii_value_loop h ws ps acc = Inr r \<Longrightarrow> set r \<subseteq> set ws \<union> set acc"
proof (induction ps arbitrary: acc)
  case Nil
  then show ?case by auto
next
  case (Cons p ps)
  then show ?case
    by (fastforce split: sum.splits dest: word_loop_subset)
qed

lemma get_words_containing_pii_with_subset:
  "get_words_containing_pii_with h ws ps = Inr r \<Longrightarrow> set r \<subseteq> set ws"
  using pii_value_loop_subset[of h ws ps "[]" r]
  by (simp add: get_words_containing_pii_with_def)

lemma redaction_areas_with_subset:
  assumes "redaction_areas_with h ws ps = Inr areas"
  shows "set areas \<subseteq> bounding_box ` set ws"
proof (cases "ps = []")
  case True
  with assms show ?thesis by (simp add: redaction_areas_with_def)
next
  case False
  with assms obtain matched where
    m: "get_words_containing_pii_with h ws ps = Inr matched" and
    ar: "areas = map bounding_box matched"
    by (auto simp: redaction_areas_with_def split: sum.splits)
  from get_words_containing_pii_with_subset[OF m] ar show ?thesis by auto
qed

text \<open>
  With the hash that the dataclass really has, the first \<open>add\<close> raises. So the method
  raises \<open>TypeError\<close> as soon as one word passes the test for one component, and returns the
  empty list otherwise.
\<close>

lemma component_loop_result:
  "component_loop DocumentWord_hash w cs acc =
     (if \<exists>c\<in>set cs. pii_match c w then Inl (TypeError ''unhashable type'') else Inr acc)"
  by (induction cs arbitrary: acc) (auto simp: py_set_add_def DocumentWord_hash_def)

lemma word_loop_result:
  "word_loop DocumentWord_hash cs ws acc =
     (if \<exists>w\<in>set ws. \<exists>c\<in>set cs. pii_match c w
      then Inl (TypeError ''unhashable type'') else Inr acc)"
  by (induction ws arbitrary: acc) (auto simp: component_loop_result)

lemma pii_value_loop_result:
  "pii_value_loop DocumentWord_hash ws ps acc =
     (if \<exists>p\<in>set ps. \<exists>w\<in>set ws. \<exists>c\<in>set (pii_components p). pii_match c w
      then Inl (TypeError ''unhashable type'') else Inr acc)"
  by (induction ps arbitrary: acc) (auto simp: word_loop_result)

lemma get_words_containing_pii_result:
  "get_words_containing_pii ws ps =
     (if \<exists>p\<in>set ps. \<exists>w\<in>set ws. \<exists>c\<in>set (pii_components p). pii_match c w
      then Inl (TypeError ''unhashable type'') else Inr [])"
  by (simp add: get_words_containing_pii_def get_words_containing_pii_with_def
      pii_value_loop_result)

text \<open>
  The test of lines 72 and 73 is the substring test in both directions on the lower-cased
  strings.
\<close>

lemma pii_match_substring:
  "pii_match component word =
     ((\<exists>before after.
          py_lower component = before @ py_lower (DocumentWord.content word) @ after) \<or>
      (\<exists>before after.
          py_lower (DocumentWord.content word) = before @ py_lower component @ after))"
  by (auto simp: pii_match_def py_in_sublist sublist_def)

text \<open>
  C1. The matching step is not total. On the OCR words \<open>SSN:\<close> and \<open>123-45-6789\<close> with the
  PII value \<open>123-45-6789\<close> (the end-to-end scenario of the specification) the second word
  passes the test, \<open>words_containing_pii.add(word)\<close> is called on an unhashable
  \<open>DocumentWord\<close>, and \<open>get_words_containing_pii\<close> raises \<open>TypeError\<close> instead of returning a
  list.
\<close>

theorem get_words_containing_pii_raises:
  "get_words_containing_pii
     [\<lparr>DocumentWord.content = ''SSN:'',
       bounding_box = \<lparr>x = 10, y = 10, width = 40, height = 12\<rparr>, confidence = 1\<rparr>,
      \<lparr>DocumentWord.content = ''123-45-6789'',
       bounding_box = \<lparr>x = 60, y = 10, width = 90, height = 12\<rparr>, confidence = 1\<rparr>]
     [''123-45-6789'']
   = Inl (TypeError ''unhashable type'')"
  by code_simp

text \<open>
  C2. On the PII value \<open>Jane Smith\<close> and the OCR words \<open>Jane\<close>, \<open>Smith\<close> and \<open>Street\<close>, each
  with its own box, the components are \<open>Jane\<close> and \<open>Smith\<close>; the test selects the first two
  words and not the third; and \<open>get_words_containing_pii\<close> raises \<open>TypeError\<close> at the first
  selected word instead of returning the two words.
\<close>

theorem jane_smith_raises:
  "pii_components ''Jane Smith'' = [''Jane'', ''Smith''] \<and>
   [w \<leftarrow> [\<lparr>DocumentWord.content = ''Jane'',
            bounding_box = \<lparr>x = 0, y = 0, width = 30, height = 10\<rparr>, confidence = 1\<rparr>,
           \<lparr>DocumentWord.content = ''Smith'',
            bounding_box = \<lparr>x = 35, y = 0, width = 40, height = 10\<rparr>, confidence = 1\<rparr>,
           \<lparr>DocumentWord.content = ''Street'',
            bounding_box = \<lparr>x = 80, y = 0, width = 45, height = 10\<rparr>, confidence = 1\<rparr>].
      pii_match ''Jane'' w \<or> pii_match ''Smith'' w]
     = [\<lparr>DocumentWord.content = ''Jane'',
         bounding_box = \<lparr>x = 0, y = 0, width = 30, height = 10\<rparr>, confidence = 1\<rparr>,
        \<lparr>DocumentWord.content = ''Smith'',
         bounding_box = \<lparr>x = 35, y = 0, width = 40, height = 10\<rparr>, confidence = 1\<rparr>] \<and>
   get_words_containing_pii
     [\<lparr>DocumentWord.content = ''Jane'',
       bounding_box = \<lparr>x = 0, y = 0, width = 30, height = 10\<rparr>, confidence = 1\<rparr>,
      \<lparr>DocumentWord.content = ''Smith'',
       bounding_box = \<lparr>x = 35, y = 0, width = 40, height = 10\<rparr>, confidence = 1\<rparr>,
      \<lparr>DocumentWord.content = ''Street'',
       bounding_box = \<lparr>x = 80, y = 0, width = 45, height = 10\<rparr>, confidence = 1\<rparr>]
     [''Jane Smith'']
   = Inl (TypeError ''unhashable type'')"
  by code_simp

text \<open>
  C3. The OCR word \<open>Johnson\<close> passes the test for both components of the PII value
  \<open>John Johnson\<close>. The set never gets to deduplicate it: the first \<open>add\<close> raises
  \<open>TypeError\<close>, and no result is returned in which the word could appear once.
\<close>

theorem repeated_match_raises:
  "pii_components ''John Johnson'' = [''John'', ''Johnson''] \<and>
   pii_match ''John''
     \<lparr>DocumentWord.content = ''Johnson'',
      bounding_box = \<lparr>x = 5, y = 5, width = 50, height = 10\<rparr>, confidence = 1\<rparr> \<and>
   pii_match ''Johnson''
     \<lparr>DocumentWord.content = ''Johnson'',
      bounding_box = \<lparr>x = 5, y = 5, width = 50, height = 10\<rparr>, confidence = 1\<rparr> \<and>
   get_words_containing_pii
     [\<lparr>DocumentWord.content = ''Johnson'',
       bounding_box = \<lparr>x = 5, y = 5, width = 50, height = 10\<rparr>, confidence = 1\<rparr>]
     [''John Johnson'']
   = Inl (TypeError ''unhashable type'')"
  by code_simp

text \<open>
  C6. The PII value \<open>john\<close> has the single component \<open>john\<close>, and the OCR word \<open>JOHN\<close>
  passes the test for it, the lower-cased strings being equal. But the word is not
  matched: \<open>get_words_containing_pii\<close>, called with this word and this value, raises
  \<open>TypeError\<close> at \<open>words_containing_pii.add(word)\<close> instead of returning the word.
\<close>

theorem john_matches_raises:
  "py_lower ''JOHN'' = ''john'' \<and>
   pii_components ''john'' = [''john''] \<and>
   pii_match ''john''
     \<lparr>DocumentWord.content = ''JOHN'',
      bounding_box = \<lparr>x = 12, y = 8, width = 44, height = 14\<rparr>, confidence = 1\<rparr> \<and>
   get_words_containing_pii
     [\<lparr>DocumentWord.content = ''JOHN'',
       bounding_box = \<lparr>x = 12, y = 8, width = 44, height = 14\<rparr>, confidence = 1\<rparr>]
     [''john'']
   = Inl (TypeError ''unhashable type'')"
  by code_simp

text \<open>
  C9. Every word that the body of \<open>get_words_containing_pii\<close> returns is a word of the input
  list, and every redaction area that step 3 of \<open>redact_pii\<close> hands to the renderer is the
  bounding box of a word of the input list. This holds whatever hash the class of the
  words has, and so of the method and of the step of the program, where \<open>DocumentWord\<close> has
  no hash.
\<close>

theorem matched_words_from_input:
  "(get_words_containing_pii_with hash_of extracted_words pii_values = Inr matched \<longrightarrow>
      set matched \<subseteq> set extracted_words) \<and>
   (redaction_areas_with hash_of extracted_words pii_values = Inr areas \<longrightarrow>
      set areas \<subseteq> bounding_box ` set extracted_words) \<and>
   (get_words_containing_pii words values = Inr matched' \<longrightarrow>
      set matched' \<subseteq> set words) \<and>
   (redaction_areas_of words values = Inr areas' \<longrightarrow>
      set areas' \<subseteq> bounding_box ` set words)"
proof (intro conjI impI)
  assume "get_words_containing_pii_with hash_of extracted_words pii_values = Inr matched"
  then show "set matched \<subseteq> set extracted_words"
    by (rule get_words_containing_pii_with_subset)
next
  assume "redaction_areas_with hash_of extracted_words pii_values = Inr areas"
  then show "set areas \<subseteq> bounding_box ` set extracted_words"
    by (rule redaction_areas_with_subset)
next
  assume "get_words_containing_pii words values = Inr matched'"
  then show "set matched' \<subseteq> set words"
    unfolding get_words_containing_pii_def by (rule get_words_containing_pii_with_subset)
next
  assume "redaction_areas_of words values = Inr areas'"
  then show "set areas' \<subseteq> bounding_box ` set words"
    unfolding redaction_areas_of_def by (rule redaction_areas_with_subset)
qed

theorem matched_words_from_input_witness:
  "get_words_containing_pii_with (\<lambda>w. Some 0)
     [\<lparr>DocumentWord.content = ''Jane'',
       bounding_box = \<lparr>x = 0, y = 0, width = 30, height = 10\<rparr>, confidence = 1\<rparr>,
      \<lparr>DocumentWord.content = ''Smith'',
       bounding_box = \<lparr>x = 35, y = 0, width = 40, height = 10\<rparr>, confidence = 1\<rparr>,
      \<lparr>DocumentWord.content = ''Street'',
       bounding_box = \<lparr>x = 80, y = 0, width = 45, height = 10\<rparr>, confidence = 1\<rparr>]
     [''Jane Smith'']
   = Inr [\<lparr>DocumentWord.content = ''Jane'',
           bounding_box = \<lparr>x = 0, y = 0, width = 30, height = 10\<rparr>, confidence = 1\<rparr>,
          \<lparr>DocumentWord.content = ''Smith'',
           bounding_box = \<lparr>x = 35, y = 0, width = 40, height = 10\<rparr>, confidence = 1\<rparr>] \<and>
   redaction_areas_with (\<lambda>w. Some 0)
     [\<lparr>DocumentWord.content = ''Jane'',
       bounding_box = \<lparr>x = 0, y = 0, width = 30, height = 10\<rparr>, confidence = 1\<rparr>,
      \<lparr>DocumentWord.content = ''Smith'',
       bounding_box = \<lparr>x = 35, y = 0, width = 40, height = 10\<rparr>, confidence = 1\<rparr>,
      \<lparr>DocumentWord.content = ''Street'',
       bounding_box = \<lparr>x = 80, y = 0, width = 45, height = 10\<rparr>, confidence = 1\<rparr>]
     [''Jane Smith'']
   = Inr [\<lparr>x = 0, y = 0, width = 30, height = 10\<rparr>, \<lparr>x = 35, y = 0, width = 40, height = 10\<rparr>] \<and>
   set [\<lparr>x = 0, y = 0, width = 30, height = 10\<rparr>, \<lparr>x = 35, y = 0, width = 40, height = 10\<rparr>]
     \<subseteq> bounding_box `
         set [\<lparr>DocumentWord.content = ''Jane'',
               bounding_box = \<lparr>x = 0, y = 0, width = 30, height = 10\<rparr>, confidence = 1\<rparr>,
              \<lparr>DocumentWord.content = ''Smith'',
               bounding_box = \<lparr>x = 35, y = 0, width = 40, height = 10\<rparr>, confidence = 1\<rparr>,
              \<lparr>DocumentWord.content = ''Street'',
               bounding_box = \<lparr>x = 80, y = 0, width = 45, height = 10\<rparr>, confidence = 1\<rparr>] \<and>
   get_words_containing_pii
     [\<lparr>DocumentWord.content = ''Street'',
       bounding_box = \<lparr>x = 80, y = 0, width = 45, height = 10\<rparr>, confidence = 1\<rparr>]
     [''Jane Smith''] = Inr [] \<and>
   redaction_areas_of
     [\<lparr>DocumentWord.content = ''Street'',
       bounding_box = \<lparr>x = 80, y = 0, width = 45, height = 10\<rparr>, confidence = 1\<rparr>]
     [''Jane Smith''] = Inr []"
proof -
  have g: "get_words_containing_pii_with (\<lambda>w. Some 0)
     [\<lparr>DocumentWord.content = ''Jane'',
       bounding_box = \<lparr>x = 0, y = 0, width = 30, height = 10\<rparr>, confidence = 1\<rparr>,
      \<lparr>DocumentWord.content = ''Smith'',
       bounding_box = \<lparr>x = 35, y = 0, width = 40, height = 10\<rparr>, confidence = 1\<rparr>,
      \<lparr>DocumentWord.content = ''Street'',
       bounding_box = \<lparr>x = 80, y = 0, width = 45, height = 10\<rparr>, confidence = 1\<rparr>]
     [''Jane Smith'']
   = Inr [\<lparr>DocumentWord.content = ''Jane'',
           bounding_box = \<lparr>x = 0, y = 0, width = 30, height = 10\<rparr>, confidence = 1\<rparr>,
          \<lparr>DocumentWord.content = ''Smith'',
           bounding_box = \<lparr>x = 35, y = 0, width = 40, height = 10\<rparr>, confidence = 1\<rparr>]"
    by code_simp
  have a: "redaction_areas_with (\<lambda>w. Some 0)
     [\<lparr>DocumentWord.content = ''Jane'',
       bounding_box = \<lparr>x = 0, y = 0, width = 30, height = 10\<rparr>, confidence = 1\<rparr>,
      \<lparr>DocumentWord.content = ''Smith'',
       bounding_box = \<lparr>x = 35, y = 0, width = 40, height = 10\<rparr>, confidence = 1\<rparr>,
      \<lparr>DocumentWord.content = ''Street'',
       bounding_box = \<lparr>x = 80, y = 0, width = 45, height = 10\<rparr>, confidence = 1\<rparr>]
     [''Jane Smith'']
   = Inr [\<lparr>x = 0, y = 0, width = 30, height = 10\<rparr>, \<lparr>x = 35, y = 0, width = 40, height = 10\<rparr>]"
    by (simp add: redaction_areas_with_def g)
  have g0: "get_words_containing_pii
     [\<lparr>DocumentWord.content = ''Street'',
       bounding_box = \<lparr>x = 80, y = 0, width = 45, height = 10\<rparr>, confidence = 1\<rparr>]
     [''Jane Smith''] = Inr []"
    by code_simp
  have a0: "redaction_areas_of
     [\<lparr>DocumentWord.content = ''Street'',
       bounding_box = \<lparr>x = 80, y = 0, width = 45, height = 10\<rparr>, confidence = 1\<rparr>]
     [''Jane Smith''] = Inr []"
    using g0 by (simp add: redaction_areas_of_def redaction_areas_with_def
        get_words_containing_pii_def)
  from matched_words_from_input
    [of "\<lambda>w. Some 0"
        "[\<lparr>DocumentWord.content = ''Jane'',
           bounding_box = \<lparr>x = 0, y = 0, width = 30, height = 10\<rparr>, confidence = 1\<rparr>,
          \<lparr>DocumentWord.content = ''Smith'',
           bounding_box = \<lparr>x = 35, y = 0, width = 40, height = 10\<rparr>, confidence = 1\<rparr>,
          \<lparr>DocumentWord.content = ''Street'',
           bounding_box = \<lparr>x = 80, y = 0, width = 45, height = 10\<rparr>, confidence = 1\<rparr>]"
        "[''Jane Smith'']"
        "[\<lparr>DocumentWord.content = ''Jane'',
           bounding_box = \<lparr>x = 0, y = 0, width = 30, height = 10\<rparr>, confidence = 1\<rparr>,
          \<lparr>DocumentWord.content = ''Smith'',
           bounding_box = \<lparr>x = 35, y = 0, width = 40, height = 10\<rparr>, confidence = 1\<rparr>]"
        "[\<lparr>x = 0, y = 0, width = 30, height = 10\<rparr>, \<lparr>x = 35, y = 0, width = 40, height = 10\<rparr>]"
        "[\<lparr>DocumentWord.content = ''Street'',
           bounding_box = \<lparr>x = 80, y = 0, width = 45, height = 10\<rparr>, confidence = 1\<rparr>]"
        "[''Jane Smith'']" "[]" "[]"]
  show ?thesis
    using g a g0 a0 by simp
qed

section \<open>Properties of the renderer\<close>

lemma draw_rectangle_Inr:
  "draw_rectangle im (rectangle b) = Inr im' \<Longrightarrow> drawable b \<and> im' = painted im [b]"
  by (auto simp: draw_rectangle_def rectangle_def painted_def drawable_def split: if_splits)

lemma draw_rectangle_ok:
  "drawable b \<Longrightarrow> draw_rectangle im (rectangle b) = Inr (painted im [b])"
  by (auto simp: draw_rectangle_def rectangle_def painted_def drawable_def)

lemma painted_Nil: "painted im [] = im"
  by (simp add: painted_def map_nth)

lemma painted_painted: "painted (painted im bs) cs = painted im (bs @ cs)"
  by (rule Image.equality) (auto simp: painted_def)

text \<open>
  A run of the drawing loop that ends without an exception has met only boxes that
  \<open>draw.rectangle\<close> accepts, and has painted exactly the pixels these boxes cover.
\<close>

lemma draw_loop_Inr:
  "draw_loop im bs = Inr im' \<Longrightarrow> (\<forall>b\<in>set bs. drawable b) \<and> im' = painted im bs"
proof (induction bs arbitrary: im)
  case Nil
  then show ?case by (simp add: painted_Nil)
next
  case (Cons b bs)
  from Cons.prems obtain im1 where
    d: "draw_rectangle im (rectangle b) = Inr im1" and
    r: "draw_loop im1 bs = Inr im'"
    by (auto split: sum.splits)
  from draw_rectangle_Inr[OF d] have wb: "drawable b"
    and im1: "im1 = painted im [b]"
    by auto
  from Cons.IH[OF r] im1 have "\<forall>b\<in>set bs. drawable b"
    and "im' = painted im ([b] @ bs)"
    by (auto simp: painted_painted)
  with wb show ?case by simp
qed

lemma draw_loop_ok:
  "\<forall>b\<in>set bs. drawable b \<Longrightarrow> draw_loop im bs = Inr (painted im bs)"
proof (induction bs arbitrary: im)
  case Nil
  then show ?case by (simp add: painted_Nil)
next
  case (Cons b bs)
  then show ?case
    using painted_painted[of im "[b]" bs] by (simp add: draw_rectangle_ok)
qed

lemma draw_loop_idem:
  assumes "draw_loop im bs = Inr im'"
  shows "draw_loop im' bs = Inr im'"
proof -
  from draw_loop_Inr[OF assms] have v: "\<forall>b\<in>set bs. drawable b"
    and p: "im' = painted im bs"
    by auto
  have "painted im' bs = im'"
    unfolding p painted_painted by (auto simp: painted_def)
  with draw_loop_ok[OF v, of im'] show ?thesis by simp
qed

lemma draw_loop_mode: "draw_loop im bs = Inr im' \<Longrightarrow> mode im' = mode im"
  by (drule draw_loop_Inr) (simp add: painted_def)

text \<open>The reference instance meets the two library contracts used below.\<close>

lemma reference_round_trip:
  "\<forall>im b. mode im = ''RGB'' \<and> save reference_pillow im ''PNG'' = Inr b \<longrightarrow>
     Image_open reference_pillow b = Inr im"
  by (simp add: reference_pillow_def)

lemma reference_convert_mode:
  "\<forall>im im'. convert reference_pillow im ''RGB'' = Inr im' \<longrightarrow> mode im' = ''RGB''"
  by (auto simp: reference_pillow_def reference_convert_def split: if_splits)

text \<open>
  C7. Rendering is idempotent. Let the library save and reopen an RGB image as PNG without
  loss, and let \<open>convert('RGB')\<close> return an image of mode RGB. Then for every input on
  which \<open>redact_image\<close> returns a result, \<open>redact_image\<close> applied to the bytes of this result
  and the same areas returns the same result, bytes and content type.
\<close>

theorem redact_image_idempotent:
  assumes png_round_trip:
      "\<forall>im b. mode im = ''RGB'' \<and> save pil im ''PNG'' = Inr b \<longrightarrow> Image_open pil b = Inr im"
    and convert_to_rgb:
      "\<forall>im im'. convert pil im ''RGB'' = Inr im' \<longrightarrow> mode im' = ''RGB''"
    and first: "redact_image pil source_image_bytes redaction_areas = Inr result"
  shows "redact_image pil (content result) redaction_areas = Inr result"
proof -
  from first obtain opened rgb drawn where
    c: "(if mode opened \<noteq> ''RGB'' then convert pil opened ''RGB'' else Inr opened) = Inr rgb" and
    d: "draw_loop rgb redaction_areas = Inr drawn" and
    s: "save pil drawn ''PNG'' = Inr (content result)" and
    t: "result = \<lparr>content = content result, content_type = ''image/png''\<rparr>"
    by (auto simp: redact_image_def split: sum.splits)
  from c convert_to_rgb have "mode rgb = ''RGB''"
    by (auto split: if_splits)
  with d have md: "mode drawn = ''RGB''"
    by (simp add: draw_loop_mode)
  with s png_round_trip have o2: "Image_open pil (content result) = Inr drawn"
    by blast
  from draw_loop_idem[OF d] have d2: "draw_loop drawn redaction_areas = Inr drawn" .
  show ?thesis
    using o2 md d2 s t by (simp add: redact_image_def)
qed

theorem redact_image_idempotent_witness:
  "redact_image reference_pillow
     \<lparr>mode = ''RGBA'', im_size = (2, 2),
      pixels = [[9, 8, 7, 255], [1, 2, 3, 4], [5, 5, 5, 0], [6, 6, 6, 6]]\<rparr>
     [\<lparr>x = 1/2, y = 1/4, width = 3/2, height = 1/2\<rparr>]
   = Inr \<lparr>content = \<lparr>mode = ''RGB'', im_size = (2, 2),
                      pixels = [[0, 0, 0], [0, 0, 0], [5, 5, 5], [6, 6, 6]]\<rparr>,
          content_type = ''image/png''\<rparr> \<and>
   redact_image reference_pillow
     \<lparr>mode = ''RGB'', im_size = (2, 2),
      pixels = [[0, 0, 0], [0, 0, 0], [5, 5, 5], [6, 6, 6]]\<rparr>
     [\<lparr>x = 1/2, y = 1/4, width = 3/2, height = 1/2\<rparr>]
   = Inr \<lparr>content = \<lparr>mode = ''RGB'', im_size = (2, 2),
                      pixels = [[0, 0, 0], [0, 0, 0], [5, 5, 5], [6, 6, 6]]\<rparr>,
          content_type = ''image/png''\<rparr>"
proof -
  have sx: "double_add (1/2) (3/2) = 2"
    by code_simp
  have sy: "double_add (1/4) (1/2) = 3/4"
    by code_simp
  have first: "redact_image reference_pillow
     \<lparr>mode = ''RGBA'', im_size = (2, 2),
      pixels = [[9, 8, 7, 255], [1, 2, 3, 4], [5, 5, 5, 0], [6, 6, 6, 6]]\<rparr>
     [\<lparr>x = 1/2, y = 1/4, width = 3/2, height = 1/2\<rparr>]
   = Inr \<lparr>content = \<lparr>mode = ''RGB'', im_size = (2, 2),
                      pixels = [[0, 0, 0], [0, 0, 0], [5, 5, 5], [6, 6, 6]]\<rparr>,
          content_type = ''image/png''\<rparr>"
    by (simp add: redact_image_def reference_pillow_def reference_convert_def
        draw_rectangle_def rectangle_def covers_def c_int_def upt_rec sx sy)
  from redact_image_idempotent [OF reference_round_trip reference_convert_mode first]
  show ?thesis using first by simp
qed

text \<open>
  C8, as stated, fails: a source that decodes to a 1 by 1 RGBA image with the pixel
  \<open>(255, 0, 0, 0)\<close> is rendered, with no area to redact, to an image whose only pixel is
  \<open>(255, 0, 0)\<close>. The pixels of the output are not those of the decoded source.
\<close>

theorem redact_image_rgba_pixels_differ:
  "Image_open reference_pillow
     \<lparr>mode = ''RGBA'', im_size = (1, 1), pixels = [[255, 0, 0, 0]]\<rparr>
   = Inr \<lparr>mode = ''RGBA'', im_size = (1, 1), pixels = [[255, 0, 0, 0]]\<rparr> \<and>
   redact_image reference_pillow
     \<lparr>mode = ''RGBA'', im_size = (1, 1), pixels = [[255, 0, 0, 0]]\<rparr> []
   = Inr \<lparr>content = \<lparr>mode = ''RGB'', im_size = (1, 1), pixels = [[255, 0, 0]]\<rparr>,
          content_type = ''image/png''\<rparr> \<and>
   Image_open reference_pillow \<lparr>mode = ''RGB'', im_size = (1, 1), pixels = [[255, 0, 0]]\<rparr>
   = Inr \<lparr>mode = ''RGB'', im_size = (1, 1), pixels = [[255, 0, 0]]\<rparr> \<and>
   pixels \<lparr>mode = ''RGB'', im_size = (1, 1), pixels = [[255, 0, 0]]\<rparr>
   \<noteq> pixels \<lparr>mode = ''RGBA'', im_size = (1, 1), pixels = [[255, 0, 0, 0]]\<rparr>"
  by (simp add: redact_image_def reference_pillow_def reference_convert_def)

text \<open>
  C8, amended. Under the same two library contracts, rendering a decodable source with no
  area to redact yields a PNG that decodes to the source image converted to RGB: to the
  very image the source decodes to when that image has mode RGB, and to the result of
  \<open>convert('RGB')\<close> on it otherwise. When the detector returns no PII value, \<open>redact_pii\<close>
  returns exactly this rendering.
\<close>

theorem redact_image_empty_regions:
  assumes png_round_trip:
      "\<forall>im b. mode im = ''RGB'' \<and> save pil im ''PNG'' = Inr b \<longrightarrow> Image_open pil b = Inr im"
    and convert_to_rgb:
      "\<forall>im im'. convert pil im ''RGB'' = Inr im' \<longrightarrow> mode im' = ''RGB''"
    and decodable: "Image_open pil source_image_bytes = Inr opened"
    and rendered: "redact_image pil source_image_bytes [] = Inr result"
  shows "content_type result = ''image/png'' \<and>
         (mode opened = ''RGB'' \<longrightarrow> Image_open pil (content result) = Inr opened) \<and>
         (mode opened \<noteq> ''RGB'' \<longrightarrow>
            (\<exists>rgb. convert pil opened ''RGB'' = Inr rgb \<and>
                   Image_open pil (content result) = Inr rgb)) \<and>
         (extract_text_from_image source_image_bytes = Inr (full_text, extracted_words) \<and>
          detect_pii full_text = Inr [] \<longrightarrow>
            redact_pii pil extract_text_from_image detect_pii source_image_bytes
              = Inr (content result, content_type result))"
proof -
  from rendered decodable obtain rgb where
    c: "(if mode opened \<noteq> ''RGB'' then convert pil opened ''RGB'' else Inr opened) = Inr rgb" and
    s: "save pil rgb ''PNG'' = Inr (content result)" and
    t: "content_type result = ''image/png''"
    by (auto simp: redact_image_def split: sum.splits)
  from c convert_to_rgb have m: "mode rgb = ''RGB''"
    by (auto split: if_splits)
  with s png_round_trip have o2: "Image_open pil (content result) = Inr rgb"
    by blast
  have p: "extract_text_from_image source_image_bytes = Inr (full_text, extracted_words) \<and>
          detect_pii full_text = Inr [] \<longrightarrow>
            redact_pii pil extract_text_from_image detect_pii source_image_bytes
              = Inr (content result, content_type result)"
    using rendered
    by (simp add: redact_pii_def extract_pii_def redaction_areas_of_def redaction_areas_with_def)
  from c o2 t p show ?thesis
    by (auto split: if_splits)
qed

theorem redact_image_empty_regions_witness:
  "Image_open reference_pillow \<lparr>mode = ''L'', im_size = (2, 1), pixels = [[7], [200]]\<rparr>
     = Inr \<lparr>mode = ''L'', im_size = (2, 1), pixels = [[7], [200]]\<rparr> \<and>
   redact_image reference_pillow \<lparr>mode = ''L'', im_size = (2, 1), pixels = [[7], [200]]\<rparr> []
     = Inr \<lparr>content = \<lparr>mode = ''RGB'', im_size = (2, 1),
                        pixels = [[7, 7, 7], [200, 200, 200]]\<rparr>,
            content_type = ''image/png''\<rparr> \<and>
   convert reference_pillow \<lparr>mode = ''L'', im_size = (2, 1), pixels = [[7], [200]]\<rparr> ''RGB''
     = Inr \<lparr>mode = ''RGB'', im_size = (2, 1), pixels = [[7, 7, 7], [200, 200, 200]]\<rparr> \<and>
   redact_pii reference_pillow (\<lambda>b. Inr (''hello'', [])) (\<lambda>t. Inr [])
       \<lparr>mode = ''L'', im_size = (2, 1), pixels = [[7], [200]]\<rparr>
     = Inr (\<lparr>mode = ''RGB'', im_size = (2, 1), pixels = [[7, 7, 7], [200, 200, 200]]\<rparr>,
            ''image/png'')"
proof -
  have o: "Image_open reference_pillow \<lparr>mode = ''L'', im_size = (2, 1), pixels = [[7], [200]]\<rparr>
     = Inr \<lparr>mode = ''L'', im_size = (2, 1), pixels = [[7], [200]]\<rparr>"
    by (simp add: reference_pillow_def)
  have r: "redact_image reference_pillow
       \<lparr>mode = ''L'', im_size = (2, 1), pixels = [[7], [200]]\<rparr> []
     = Inr \<lparr>content = \<lparr>mode = ''RGB'', im_size = (2, 1),
                        pixels = [[7, 7, 7], [200, 200, 200]]\<rparr>,
            content_type = ''image/png''\<rparr>"
    by (simp add: redact_image_def reference_pillow_def reference_convert_def)
  have c: "convert reference_pillow
       \<lparr>mode = ''L'', im_size = (2, 1), pixels = [[7], [200]]\<rparr> ''RGB''
     = Inr \<lparr>mode = ''RGB'', im_size = (2, 1), pixels = [[7, 7, 7], [200, 200, 200]]\<rparr>"
    by (simp add: reference_pillow_def reference_convert_def)
  from redact_image_empty_regions
    [OF reference_round_trip reference_convert_mode o r,
     of "\<lambda>b. Inr (''hello'', [])" "''hello''" "[]" "\<lambda>t. Inr []"]
  show ?thesis using o r c by simp
qed

end
